theory Spec2Isabelle
  imports
    Main
    "HOL-Library.Char_ord"
    "HOL-Library.List_Lexorder"
    "HOL-Library.Multiset"
begin

section \<open>Field lists of structured-merge-diff (value/fields.go)\<close>

text \<open>
  The development embeds the operations of \<^verbatim>\<open>value/fields.go\<close>: \<^verbatim>\<open>Compare\<close>,
  \<^verbatim>\<open>Less\<close>, \<^verbatim>\<open>Equals\<close>, \<^verbatim>\<open>Sort\<close> and \<^verbatim>\<open>FieldListFromJSON\<close>.

  Go strings are byte sequences and \<^verbatim>\<open><\<close> on them is the byte-wise lexicographic
  order. HOL's \<^typ>\<open>string\<close> is a list of 8-bit characters; the order used here is the
  one of \<^verbatim>\<open>Char_ord\<close> (characters by their byte value) lifted to lists by
  \<^verbatim>\<open>List_Lexorder\<close> (first differing byte decides, a proper prefix is smaller).

  The type \<^verbatim>\<open>Value\<close>, its functions \<^verbatim>\<open>Compare\<close> and \<^verbatim>\<open>Equals\<close>, and the package
  \<^verbatim>\<open>internal/builder\<close> are not part of the file: values are a type parameter \<open>'v\<close> and
  the functions are parameters of the operations that call them. \<^verbatim>\<open>FieldListToJSON\<close>
  only drives the external \<^verbatim>\<open>JSONBuilder\<close> and is not embedded.
\<close>

subsection \<open>Data model\<close>

text \<open>\<^verbatim>\<open>type Field struct { Name string; Value Value }\<close> and \<^verbatim>\<open>type FieldList []Field\<close>.\<close>

record 'v Field =
  Name :: string
  Value :: 'v

type_synonym 'v FieldList = "'v Field list"

subsection \<open>Compare, Less and Equals\<close>

text \<open>
  \<^verbatim>\<open>strings.Compare(a, b)\<close> of the Go standard library: 0 if \<open>a == b\<close>, -1 if
  \<open>a < b\<close>, and +1 otherwise.
\<close>

definition strings_Compare :: "string \<Rightarrow> string \<Rightarrow> int" where
  "strings_Compare a b = (if a = b then 0 else if a < b then - 1 else 1)"

text \<open>
  The body of \<^verbatim>\<open>FieldList.Compare\<close>: an unbounded \<^verbatim>\<open>for\<close> loop over the shared index
  \<open>i\<close>, which starts at 0. The parameter \<open>vcmp\<close> is the external \<^verbatim>\<open>Compare\<close> on values.
\<close>

function Compare_loop ::
  "('v \<Rightarrow> 'v \<Rightarrow> int) \<Rightarrow> 'v FieldList \<Rightarrow> 'v FieldList \<Rightarrow> nat \<Rightarrow> int" where
  "Compare_loop vcmp f rhs i =
     (if i \<ge> length f \<and> i \<ge> length rhs then 0
      else if i \<ge> length f then - 1
      else if i \<ge> length rhs then 1
      else (let c = strings_Compare (Name (f ! i)) (Name (rhs ! i)) in
        if c \<noteq> 0 then c
        else (let c = vcmp (Value (f ! i)) (Value (rhs ! i)) in
          if c \<noteq> 0 then c
          else Compare_loop vcmp f rhs (i + 1))))"
  by pat_completeness auto
termination
  by (relation "measure (\<lambda>(vcmp, f, rhs, i). length f - i)") auto

definition Compare :: "('v \<Rightarrow> 'v \<Rightarrow> int) \<Rightarrow> 'v FieldList \<Rightarrow> 'v FieldList \<Rightarrow> int" where
  "Compare vcmp f rhs = Compare_loop vcmp f rhs 0"

text \<open>\<^verbatim>\<open>Less\<close>: \<^verbatim>\<open>return f.Compare(rhs) == -1\<close>.\<close>

definition Less :: "('v \<Rightarrow> 'v \<Rightarrow> int) \<Rightarrow> 'v FieldList \<Rightarrow> 'v FieldList \<Rightarrow> bool" where
  "Less vcmp f rhs = (Compare vcmp f rhs = - 1)"

text \<open>
  The same loop with a budget of passes: every pass of the loop body spends one unit, and
  \<open>None\<close> says that the budget ran out before the loop returned.
\<close>

fun Compare_fuel ::
  "nat \<Rightarrow> ('v \<Rightarrow> 'v \<Rightarrow> int) \<Rightarrow> 'v FieldList \<Rightarrow> 'v FieldList \<Rightarrow> nat \<Rightarrow> int option" where
  "Compare_fuel 0 vcmp f rhs i = None"
| "Compare_fuel (Suc n) vcmp f rhs i =
     (if i \<ge> length f \<and> i \<ge> length rhs then Some 0
      else if i \<ge> length f then Some (- 1)
      else if i \<ge> length rhs then Some 1
      else (let c = strings_Compare (Name (f ! i)) (Name (rhs ! i)) in
        if c \<noteq> 0 then Some c
        else (let c = vcmp (Value (f ! i)) (Value (rhs ! i)) in
          if c \<noteq> 0 then Some c
          else Compare_fuel n vcmp f rhs (i + 1))))"

text \<open>
  \<^verbatim>\<open>FieldList.Equals\<close>: the length check, then \<^verbatim>\<open>for i := range f\<close>. The parameter
  \<open>veq\<close> is the external \<^verbatim>\<open>Equals\<close> on values. The loop reads \<open>rhs ! i\<close> only for
  \<open>i < length f\<close>, and it runs only when both lengths are the same.
\<close>

function Equals_loop ::
  "('v \<Rightarrow> 'v \<Rightarrow> bool) \<Rightarrow> 'v FieldList \<Rightarrow> 'v FieldList \<Rightarrow> nat \<Rightarrow> bool" where
  "Equals_loop veq f rhs i =
     (if i < length f then
        (if Name (f ! i) \<noteq> Name (rhs ! i) then False
         else if \<not> veq (Value (f ! i)) (Value (rhs ! i)) then False
         else Equals_loop veq f rhs (i + 1))
      else True)"
  by pat_completeness auto
termination
  by (relation "measure (\<lambda>(veq, f, rhs, i). length f - i)") auto

definition Equals :: "('v \<Rightarrow> 'v \<Rightarrow> bool) \<Rightarrow> 'v FieldList \<Rightarrow> 'v FieldList \<Rightarrow> bool" where
  "Equals veq f rhs = (if length f \<noteq> length rhs then False else Equals_loop veq f rhs 0)"

subsection \<open>Sort\<close>

text \<open>
  \<^verbatim>\<open>sort.SliceStable(x, less)\<close> belongs to Go's standard library: it sorts the slice by
  \<open>less\<close> and keeps equal elements in their original order. On a slice of up to 20
  elements the library runs an insertion sort: each element in turn is swapped to the left
  while it is \<open>less\<close> than its left neighbour. Longer slices are insertion-sorted in
  blocks of 20 that are then merged in place, stably. The model is the insertion sort at
  every length.

  \<open>sink lt x ps\<close> is the inner loop. The list \<open>ps\<close> holds the part of the slice to the
  left of \<open>x\<close>, nearest neighbour first.
\<close>

primrec sink :: "('a \<Rightarrow> 'a \<Rightarrow> bool) \<Rightarrow> 'a \<Rightarrow> 'a list \<Rightarrow> 'a list" where
  "sink lt x [] = [x]"
| "sink lt x (y # ys) = (if lt x y then y # sink lt x ys else x # y # ys)"

definition SliceStable :: "('a \<Rightarrow> 'a \<Rightarrow> bool) \<Rightarrow> 'a list \<Rightarrow> 'a list" where
  "SliceStable lt xs = rev (foldl (\<lambda>ps x. sink lt x ps) [] xs)"

text \<open>
  \<^verbatim>\<open>FieldList.Sort\<close> works in place; the model returns the slice's new content. The
  closure given to \<^verbatim>\<open>sort.SliceStable\<close> is \<^verbatim>\<open>f[i].Name < f[j].Name\<close>.
\<close>

definition Sort :: "'v FieldList \<Rightarrow> 'v FieldList" where
  "Sort f =
     (if length f < 2 then f
      else if length f = 2 then
        (if Name (f ! 1) < Name (f ! 0) then f[0 := f ! 1, 1 := f ! 0] else f)
      else SliceStable (\<lambda>a b. Name a < Name b) f)"

subsection \<open>FieldListFromJSON\<close>

text \<open>
  Errors of the external calls: \<^verbatim>\<open>io.EOF\<close>, which the code tells apart with \<open>==\<close>, or
  any other error, known by its message. \<open>Error\<close> is the method \<^verbatim>\<open>Error()\<close> that the
  verb \<^verbatim>\<open>%v\<close> of \<^verbatim>\<open>fmt.Errorf\<close> prints.
\<close>

datatype go_error = EOF | Err string

fun Error :: "go_error \<Rightarrow> string" where
  "Error EOF = ''EOF''"
| "Error (Err m) = m"

text \<open>
  The external functions that \<^verbatim>\<open>FieldListFromJSON\<close> calls, over a parser state \<open>'p\<close>,
  raw tokens \<open>'r\<close> and decoded values \<open>'i\<close>. \<open>Parse\<close> returns its result and the
  parser's next state; a call that fails returns \<open>Inl\<close> of the error.
\<close>

record ('p, 'r, 'i, 'v) externals =
  NewFastObjParser :: "string \<Rightarrow> 'p"
  Parse :: "'p \<Rightarrow> (go_error + 'r) \<times> 'p"
  UnmarshalString :: "'r \<Rightarrow> go_error + string"
  UnmarshalInterface :: "'r \<Rightarrow> go_error + 'i"
  NewValueInterface :: "'i \<Rightarrow> 'v"

text \<open>
  The \<^verbatim>\<open>for\<close> loop of \<^verbatim>\<open>FieldListFromJSON\<close>, from the parser state and the fields
  read so far. It returns Go's pair: the list (\<open>[]\<close> for \<^verbatim>\<open>nil\<close>) and the error
  (\<open>None\<close> for \<^verbatim>\<open>nil\<close>, else the message given to \<^verbatim>\<open>fmt.Errorf\<close>). The loop ends
  only when the parser reports an error, so the result is optional: \<open>None\<close> stands for
  a run that never returns.
\<close>

partial_function (option) FromJSON_loop ::
  "('p, 'r, 'i, 'v) externals \<Rightarrow> 'p \<Rightarrow> 'v FieldList \<Rightarrow>
     ('v FieldList \<times> string option) option" where
  "FromJSON_loop ext parser flds =
     (case Parse ext parser of
        (Inl err, parser1) \<Rightarrow>
          if err = EOF then Some (flds, None)
          else Some ([], Some (''parsing JSON: '' @ Error err))
      | (Inr rawKey, parser1) \<Rightarrow>
          (case Parse ext parser1 of
             (Inl err, parser2) \<Rightarrow>
               if err = EOF then Some ([], Some ''unexpected EOF'')
               else Some ([], Some (''parsing JSON: '' @ Error err))
           | (Inr rawValue, parser2) \<Rightarrow>
               (case UnmarshalString ext rawKey of
                  Inl err \<Rightarrow> Some ([], Some (''parsing JSON: '' @ Error err))
                | Inr k \<Rightarrow>
                    (case UnmarshalInterface ext rawValue of
                       Inl err \<Rightarrow> Some ([], Some (''parsing JSON: '' @ Error err))
                     | Inr v \<Rightarrow>
                         FromJSON_loop ext parser2
                           (flds @ [\<lparr>Name = k, Value = NewValueInterface ext v\<rparr>])))))"

definition FieldListFromJSON ::
  "('p, 'r, 'i, 'v) externals \<Rightarrow> string \<Rightarrow> ('v FieldList \<times> string option) option" where
  "FieldListFromJSON ext input = FromJSON_loop ext (NewFastObjParser ext input) []"

text \<open>
  The results the error taxonomy allows: no error, or an error with no list whose message
  is \<^verbatim>\<open>unexpected EOF\<close> or starts with \<^verbatim>\<open>parsing JSON: \<close>.
\<close>

definition error_shape :: "'v FieldList \<times> string option \<Rightarrow> bool" where
  "error_shape y =
     (case snd y of None \<Rightarrow> True
      | Some msg \<Rightarrow> fst y = [] \<and>
          (msg = ''unexpected EOF'' \<or> take 14 msg = ''parsing JSON: ''))"

subsection \<open>Concrete collaborators\<close>

text \<open>A comparator on integers, used to run the operations on concrete lists.\<close>

definition int_cmp :: "int \<Rightarrow> int \<Rightarrow> int" where
  "int_cmp a b = (if a < b then - 1 else if b < a then 1 else 0)"

text \<open>
  A small parser to run \<^verbatim>\<open>FieldListFromJSON\<close> on: the bytes \<open>{\<close>, \<open>}\<close>, \<open>:\<close> and
  \<open>,\<close> are skipped and every other byte of the input is one token, the byte \<open>!\<close> is a
  token the parser rejects, and past the last byte the parser reports \<^verbatim>\<open>io.EOF\<close>. The
  token \<open>?\<close> is one that neither decoder accepts.
\<close>

fun replay :: "(go_error + string) list \<Rightarrow> (go_error + string) \<times> (go_error + string) list" where
  "replay [] = (Inl EOF, [])"
| "replay (t # ts) = (t, ts)"

definition toy_ext :: "((go_error + string) list, string, string, string) externals" where
  "toy_ext =
     \<lparr>NewFastObjParser = (\<lambda>input.
        map (\<lambda>c. if c = CHR ''!'' then Inl (Err ''bad token'') else Inr [c])
          (filter (\<lambda>c. c \<notin> set ''{}:,'') input)),
      Parse = replay,
      UnmarshalString = (\<lambda>r. if r = ''?'' then Inl (Err ''bad string'') else Inr r),
      UnmarshalInterface = (\<lambda>r. if r = ''?'' then Inl (Err ''bad value'') else Inr r),
      NewValueInterface = (\<lambda>v. v)\<rparr>"

section \<open>Properties\<close>

declare Compare_loop.simps [simp del]
declare Equals_loop.simps [simp del]

subsection \<open>Unfolding the loops\<close>

lemma strings_Compare_zero: "strings_Compare a b = 0 \<longleftrightarrow> a = b"
  by (simp add: strings_Compare_def)

lemma strings_Compare_neg: "strings_Compare a b = - strings_Compare b a"
  by (auto simp: strings_Compare_def)

lemma Compare_loop_unfold:
  "Compare_loop vcmp f rhs i =
     (if i \<ge> length f \<and> i \<ge> length rhs then 0
      else if i \<ge> length f then - 1
      else if i \<ge> length rhs then 1
      else if strings_Compare (Name (f ! i)) (Name (rhs ! i)) \<noteq> 0
        then strings_Compare (Name (f ! i)) (Name (rhs ! i))
      else if vcmp (Value (f ! i)) (Value (rhs ! i)) \<noteq> 0
        then vcmp (Value (f ! i)) (Value (rhs ! i))
      else Compare_loop vcmp f rhs (Suc i))"
  by (subst Compare_loop.simps) (simp add: Let_def)

lemma Equals_loop_unfold:
  "Equals_loop veq f rhs i =
     (i < length f \<longrightarrow>
        Name (f ! i) = Name (rhs ! i) \<and> veq (Value (f ! i)) (Value (rhs ! i)) \<and>
        Equals_loop veq f rhs (Suc i))"
  by (subst Equals_loop.simps) simp

subsection \<open>Equals against Compare\<close>

text \<open>A result 0 of the loop, started inside both lists, means that the lengths agree.\<close>

lemma Compare_loop_zero_len:
  "Compare_loop vcmp f rhs i = 0 \<Longrightarrow> i \<le> length f \<Longrightarrow> i \<le> length rhs \<Longrightarrow>
     length f = length rhs"
proof (induction "length f - i" arbitrary: i)
  case 0
  then show ?case
    by (subst (asm) Compare_loop_unfold) (simp split: if_splits)
next
  case (Suc n)
  from Suc.prems(1) show ?case
    apply (subst (asm) Compare_loop_unfold)
    using Suc.hyps(1)[of "Suc i"] Suc.hyps(2) Suc.prems(2,3)
    apply (simp split: if_splits)
    done
qed

lemma Equals_loop_Compare_loop:
  assumes "\<forall>a b. veq a b = (vcmp a b = 0)" and "length f = length rhs"
  shows "Equals_loop veq f rhs i = (Compare_loop vcmp f rhs i = 0)"
proof (induction "length f - i" arbitrary: i)
  case 0
  then show ?case
    using assms(2)
    by (subst Compare_loop_unfold, subst Equals_loop_unfold) simp
next
  case (Suc n)
  then have "Equals_loop veq f rhs (Suc i) = (Compare_loop vcmp f rhs (Suc i) = 0)"
    by simp
  then show ?case
    using assms Suc.hyps(2)
    by (subst Compare_loop_unfold, subst Equals_loop_unfold)
       (simp add: strings_Compare_zero)
qed

text \<open>
  C1. For all field lists \<open>A\<close> and \<open>B\<close>, when the external equality on values holds
  exactly where the external comparison returns 0, \<^verbatim>\<open>Equals(A, B)\<close> is true if and only
  if \<^verbatim>\<open>Compare(A, B)\<close> returns 0.
\<close>

theorem Equals_iff_Compare_zero:
  assumes "\<forall>a b. veq a b = (vcmp a b = 0)"
  shows "Equals veq A B = (Compare vcmp A B = 0)"
proof (cases "length A = length B")
  case True
  then show ?thesis
    using Equals_loop_Compare_loop[OF assms True, of 0] by (simp add: Equals_def Compare_def)
next
  case False
  then show ?thesis
    using Compare_loop_zero_len[of vcmp A B 0] by (auto simp: Equals_def Compare_def)
qed

theorem Equals_iff_Compare_zero_witness:
  "(\<forall>a b :: int. (a = b) = (int_cmp a b = 0)) \<and>
   Equals (=) [\<lparr>Name = ''a'', Value = 1 :: int\<rparr>, \<lparr>Name = ''b'', Value = 2\<rparr>]
     [\<lparr>Name = ''a'', Value = 1\<rparr>, \<lparr>Name = ''b'', Value = 2\<rparr>] \<and>
   Compare int_cmp [\<lparr>Name = ''a'', Value = 1 :: int\<rparr>, \<lparr>Name = ''b'', Value = 2\<rparr>]
     [\<lparr>Name = ''a'', Value = 1\<rparr>, \<lparr>Name = ''b'', Value = 2\<rparr>] = 0 \<and>
   \<not> Equals (=) [\<lparr>Name = ''a'', Value = 1 :: int\<rparr>] [\<lparr>Name = ''a'', Value = 2\<rparr>] \<and>
   Compare int_cmp [\<lparr>Name = ''a'', Value = 1 :: int\<rparr>] [\<lparr>Name = ''a'', Value = 2\<rparr>] \<noteq> 0"
proof -
  have h: "\<forall>a b :: int. (a = b) = (int_cmp a b = 0)"
    by (simp add: int_cmp_def)
  have e1: "Equals (=) [\<lparr>Name = ''a'', Value = 1 :: int\<rparr>, \<lparr>Name = ''b'', Value = 2\<rparr>]
     [\<lparr>Name = ''a'', Value = 1\<rparr>, \<lparr>Name = ''b'', Value = 2\<rparr>]"
    by (simp add: Equals_def Equals_loop.simps)
  have e2: "\<not> Equals (=) [\<lparr>Name = ''a'', Value = 1 :: int\<rparr>] [\<lparr>Name = ''a'', Value = 2\<rparr>]"
    by (simp add: Equals_def Equals_loop.simps)
  show ?thesis
    using h e1 e2
      Equals_iff_Compare_zero [OF h, of "[\<lparr>Name = ''a'', Value = 1\<rparr>, \<lparr>Name = ''b'', Value = 2\<rparr>]"
        "[\<lparr>Name = ''a'', Value = 1\<rparr>, \<lparr>Name = ''b'', Value = 2\<rparr>]"]
      Equals_iff_Compare_zero [OF h, of "[\<lparr>Name = ''a'', Value = 1\<rparr>]" "[\<lparr>Name = ''a'', Value = 2\<rparr>]"]
    by blast
qed

subsection \<open>Antisymmetry\<close>

lemma Compare_loop_antisym:
  assumes "\<forall>a b. vcmp a b = - vcmp b a"
  shows "Compare_loop vcmp f rhs i = - Compare_loop vcmp rhs f i"
proof (induction "length f - i" arbitrary: i)
  case 0
  then show ?case
    by (subst Compare_loop_unfold, subst (2) Compare_loop_unfold) simp
next
  case (Suc n)
  then have IH: "Compare_loop vcmp f rhs (Suc i) = - Compare_loop vcmp rhs f (Suc i)"
    by simp
  have n: "strings_Compare (Name (f ! i)) (Name (rhs ! i)) =
      - strings_Compare (Name (rhs ! i)) (Name (f ! i))"
    by (rule strings_Compare_neg)
  have v: "vcmp (Value (f ! i)) (Value (rhs ! i)) = - vcmp (Value (rhs ! i)) (Value (f ! i))"
    using assms by blast
  show ?case
    by (subst Compare_loop_unfold, subst (2) Compare_loop_unfold) (simp add: IH n v)
qed

lemma Compare_loop_refl:
  assumes "\<forall>a. vcmp a a = 0"
  shows "Compare_loop vcmp f f i = 0"
proof (induction "length f - i" arbitrary: i)
  case 0
  then show ?case
    by (subst Compare_loop_unfold) simp
next
  case (Suc n)
  then have "Compare_loop vcmp f f (Suc i) = 0"
    by simp
  then show ?case
    using assms by (subst Compare_loop_unfold) (simp add: strings_Compare_zero)
qed

text \<open>
  C2. For all field lists \<open>A\<close> and \<open>B\<close>, when the external comparison on values is
  antisymmetric (\<open>vcmp a b = - vcmp b a\<close>), \<^verbatim>\<open>Compare(A, B) == -Compare(B, A)\<close>; and
  when the external comparison returns 0 on every value against itself,
  \<^verbatim>\<open>Compare(A, A) == 0\<close>.
\<close>

theorem Compare_antisymmetric:
  "((\<forall>a b. vcmp a b = - vcmp b a) \<longrightarrow> Compare vcmp A B = - Compare vcmp B A) \<and>
   ((\<forall>a. vcmp a a = 0) \<longrightarrow> Compare vcmp A A = 0)"
  unfolding Compare_def
  using Compare_loop_antisym[of vcmp A B 0] Compare_loop_refl[of vcmp A 0]
  by blast

theorem Compare_antisymmetric_witness:
  "(\<forall>a b. int_cmp a b = - int_cmp b a) \<and> (\<forall>a. int_cmp a a = 0) \<and>
   Compare int_cmp [\<lparr>Name = ''a'', Value = 1\<rparr>, \<lparr>Name = ''b'', Value = 2\<rparr>]
     [\<lparr>Name = ''a'', Value = 1\<rparr>, \<lparr>Name = ''b'', Value = 3\<rparr>] = - 1 \<and>
   Compare int_cmp [\<lparr>Name = ''a'', Value = 1\<rparr>, \<lparr>Name = ''b'', Value = 3\<rparr>]
     [\<lparr>Name = ''a'', Value = 1\<rparr>, \<lparr>Name = ''b'', Value = 2\<rparr>] = 1 \<and>
   Compare int_cmp [\<lparr>Name = ''a'', Value = 1\<rparr>, \<lparr>Name = ''b'', Value = 2\<rparr>]
     [\<lparr>Name = ''a'', Value = 1\<rparr>, \<lparr>Name = ''b'', Value = 2\<rparr>] = 0"
proof -
  have h: "\<forall>a b. int_cmp a b = - int_cmp b a"
    by (simp add: int_cmp_def)
  have r: "\<forall>a. int_cmp a a = 0"
    by (simp add: int_cmp_def)
  have c: "Compare int_cmp [\<lparr>Name = ''a'', Value = 1\<rparr>, \<lparr>Name = ''b'', Value = 2\<rparr>]
     [\<lparr>Name = ''a'', Value = 1\<rparr>, \<lparr>Name = ''b'', Value = 3\<rparr>] = - 1"
    by (simp add: Compare_def Compare_loop.simps strings_Compare_def int_cmp_def)
  have a: "Compare int_cmp [\<lparr>Name = ''a'', Value = 1\<rparr>, \<lparr>Name = ''b'', Value = 3\<rparr>]
     [\<lparr>Name = ''a'', Value = 1\<rparr>, \<lparr>Name = ''b'', Value = 2\<rparr>] =
     - Compare int_cmp [\<lparr>Name = ''a'', Value = 1\<rparr>, \<lparr>Name = ''b'', Value = 2\<rparr>]
     [\<lparr>Name = ''a'', Value = 1\<rparr>, \<lparr>Name = ''b'', Value = 3\<rparr>]"
    using h Compare_antisymmetric [of int_cmp
        "[\<lparr>Name = ''a'', Value = 1\<rparr>, \<lparr>Name = ''b'', Value = 3\<rparr>]"
        "[\<lparr>Name = ''a'', Value = 1\<rparr>, \<lparr>Name = ''b'', Value = 2\<rparr>]"]
    by blast
  have z: "Compare int_cmp [\<lparr>Name = ''a'', Value = 1\<rparr>, \<lparr>Name = ''b'', Value = 2\<rparr>]
     [\<lparr>Name = ''a'', Value = 1\<rparr>, \<lparr>Name = ''b'', Value = 2\<rparr>] = 0"
    using r Compare_antisymmetric [of int_cmp
        "[\<lparr>Name = ''a'', Value = 1\<rparr>, \<lparr>Name = ''b'', Value = 2\<rparr>]"
        "[\<lparr>Name = ''a'', Value = 1\<rparr>, \<lparr>Name = ''b'', Value = 2\<rparr>]"]
    by blast
  from a c have c': "Compare int_cmp [\<lparr>Name = ''a'', Value = 1\<rparr>, \<lparr>Name = ''b'', Value = 3\<rparr>]
     [\<lparr>Name = ''a'', Value = 1\<rparr>, \<lparr>Name = ''b'', Value = 2\<rparr>] = 1"
    by simp
  from h r c c' z show ?thesis
    by blast
qed

subsection \<open>A list against its extension\<close>

lemma Compare_loop_prefix:
  assumes "length P < length Q"
    and "\<forall>i<length P. Name (P ! i) = Name (Q ! i) \<and>
           vcmp (Value (P ! i)) (Value (Q ! i)) = 0 \<and> vcmp (Value (Q ! i)) (Value (P ! i)) = 0"
    and "i \<le> length P"
  shows "Compare_loop vcmp P Q i = - 1 \<and> Compare_loop vcmp Q P i = 1"
  using assms(3)
proof (induction "length P - i" arbitrary: i)
  case 0
  then show ?case
    using assms(1)
    by (subst Compare_loop_unfold, subst (2) Compare_loop_unfold) simp
next
  case (Suc n)
  then have IH: "Compare_loop vcmp P Q (Suc i) = - 1 \<and> Compare_loop vcmp Q P (Suc i) = 1"
    by simp
  have "i < length P" using Suc.hyps(2) by simp
  with assms show ?case
    by (subst Compare_loop_unfold, subst (2) Compare_loop_unfold)
       (simp add: IH strings_Compare_zero)
qed

text \<open>
  C4. When \<open>Q\<close> has more elements than \<open>P\<close> and agrees with \<open>P\<close> at every position of
  \<open>P\<close>, in name and in value (the external comparison returns 0 on the two values, in
  both orders), \<^verbatim>\<open>Compare(P, Q)\<close> returns -1 and \<^verbatim>\<open>Compare(Q, P)\<close> returns +1. The
  instance below is \<^verbatim>\<open>Compare([{a,1}], [{a,1},{b,2}]) == -1\<close>.
\<close>

theorem Compare_strict_prefix:
  assumes "length P < length Q"
    and "\<forall>i<length P. Name (P ! i) = Name (Q ! i) \<and>
           vcmp (Value (P ! i)) (Value (Q ! i)) = 0 \<and> vcmp (Value (Q ! i)) (Value (P ! i)) = 0"
  shows "Compare vcmp P Q = - 1 \<and> Compare vcmp Q P = 1"
  unfolding Compare_def using assms by (intro Compare_loop_prefix) simp_all

theorem Compare_strict_prefix_witness:
  "Compare int_cmp [\<lparr>Name = ''a'', Value = 1\<rparr>]
     [\<lparr>Name = ''a'', Value = 1\<rparr>, \<lparr>Name = ''b'', Value = 2\<rparr>] = - 1 \<and>
   Compare int_cmp [\<lparr>Name = ''a'', Value = 1\<rparr>, \<lparr>Name = ''b'', Value = 2\<rparr>]
     [\<lparr>Name = ''a'', Value = 1\<rparr>] = 1"
  by (rule Compare_strict_prefix) (simp_all add: int_cmp_def)

subsection \<open>Termination of Compare\<close>

lemma Compare_fuel_enough:
  "min (length f) (length rhs) - i < n \<Longrightarrow>
     Compare_fuel n vcmp f rhs i = Some (Compare_loop vcmp f rhs i)"
proof (induction n arbitrary: i)
  case 0
  then show ?case by simp
next
  case (Suc n)
  show ?case
  proof (cases "i < length f \<and> i < length rhs")
    case True
    then have "min (length f) (length rhs) - Suc i < n"
      using Suc.prems by arith
    then have "Compare_fuel n vcmp f rhs (Suc i) = Some (Compare_loop vcmp f rhs (Suc i))"
      by (rule Suc.IH)
    then show ?thesis
      by (subst Compare_loop_unfold) (simp add: Let_def)
  next
    case False
    then show ?thesis
      by (subst Compare_loop_unfold) auto
  qed
qed

text \<open>
  C10. \<^verbatim>\<open>Compare\<close> terminates on every pair of lists: the loop, whose index grows by
  one on each pass, returns within \<open>max (length f) (length rhs) + 1\<close> passes, with the
  result of \<^verbatim>\<open>Compare\<close>.
\<close>

theorem Compare_terminates:
  "Compare_fuel (max (length f) (length rhs) + 1) vcmp f rhs 0 = Some (Compare vcmp f rhs)"
  unfolding Compare_def by (rule Compare_fuel_enough) simp

text \<open>On two equal lists of one field the loop needs both passes of this budget.\<close>

theorem Compare_terminates_witness:
  "Compare_fuel (max (length [\<lparr>Name = ''a'', Value = 1 :: int\<rparr>])
       (length [\<lparr>Name = ''a'', Value = 1 :: int\<rparr>]) + 1) int_cmp
     [\<lparr>Name = ''a'', Value = 1\<rparr>] [\<lparr>Name = ''a'', Value = 1\<rparr>] 0 = Some 0 \<and>
   Compare_fuel 1 int_cmp [\<lparr>Name = ''a'', Value = 1\<rparr>] [\<lparr>Name = ''a'', Value = 1\<rparr>] 0 = None"
proof -
  have c: "Compare int_cmp [\<lparr>Name = ''a'', Value = 1\<rparr>] [\<lparr>Name = ''a'', Value = 1\<rparr>] = 0"
    by (simp add: Compare_def Compare_loop.simps strings_Compare_def int_cmp_def)
  have n: "Compare_fuel 1 int_cmp [\<lparr>Name = ''a'', Value = 1\<rparr>] [\<lparr>Name = ''a'', Value = 1\<rparr>] 0 = None"
    by (simp add: strings_Compare_def int_cmp_def)
  from n show ?thesis
    using Compare_terminates [of "[\<lparr>Name = ''a'', Value = 1 :: int\<rparr>]"
        "[\<lparr>Name = ''a'', Value = 1 :: int\<rparr>]" int_cmp]
    by (simp only: c simp_thms)
qed

subsection \<open>The library sort\<close>

lemma mset_sink: "mset (sink lt x ps) = add_mset x (mset ps)"
  by (induction ps) auto

lemma set_sink: "set (sink lt x ps) = insert x (set ps)"
  by (induction ps) auto

lemma mset_foldl_sink: "mset (foldl (\<lambda>ps x. sink lt x ps) ps xs) = mset xs + mset ps"
  by (induction xs arbitrary: ps) (auto simp: mset_sink)

lemma mset_SliceStable: "mset (SliceStable lt xs) = mset xs"
  by (simp add: SliceStable_def mset_foldl_sink)

text \<open>The part to the left of the element stays sorted; it is held in reverse.\<close>

lemma desc_sink:
  "sorted_wrt (\<lambda>a b. Name b \<le> Name a) ps \<Longrightarrow>
   sorted_wrt (\<lambda>a b. Name b \<le> Name a) (sink (\<lambda>a b. Name a < Name b) x ps)"
  by (induction ps) (auto simp: set_sink)

lemma desc_foldl_sink:
  "sorted_wrt (\<lambda>a b. Name b \<le> Name a) ps \<Longrightarrow>
   sorted_wrt (\<lambda>a b. Name b \<le> Name a)
     (foldl (\<lambda>ps x. sink (\<lambda>a b. Name a < Name b) x ps) ps xs)"
  by (induction xs arbitrary: ps) (auto simp: desc_sink)

lemma sorted_SliceStable: "sorted (map Name (SliceStable (\<lambda>a b. Name a < Name b) xs))"
proof -
  have "sorted_wrt (\<lambda>a b. Name b \<le> Name a)
      (foldl (\<lambda>ps x. sink (\<lambda>a b. Name a < Name b) x ps) [] xs)"
    by (rule desc_foldl_sink) simp
  then show ?thesis
    by (simp add: SliceStable_def sorted_wrt_rev sorted_wrt_map rev_map)
qed

text \<open>An element only passes elements of a greater name, never one of its own name.\<close>

lemma filter_sink:
  "filter (\<lambda>y. Name y = k) (sink (\<lambda>a b. Name a < Name b) x ps) =
     (if Name x = k then x # filter (\<lambda>y. Name y = k) ps else filter (\<lambda>y. Name y = k) ps)"
  by (induction ps) auto

lemma filter_foldl_sink:
  "filter (\<lambda>y. Name y = k) (foldl (\<lambda>ps x. sink (\<lambda>a b. Name a < Name b) x ps) ps xs) =
     rev (filter (\<lambda>y. Name y = k) xs) @ filter (\<lambda>y. Name y = k) ps"
  by (induction xs arbitrary: ps) (auto simp: filter_sink)

lemma filter_SliceStable:
  "filter (\<lambda>y. Name y = k) (SliceStable (\<lambda>a b. Name a < Name b) xs) =
     filter (\<lambda>y. Name y = k) xs"
  by (simp add: SliceStable_def filter_foldl_sink rev_filter[symmetric])

lemma foldl_sink_sorted:
  "sorted (map Name (rev ps @ xs)) \<Longrightarrow>
     foldl (\<lambda>ps x. sink (\<lambda>a b. Name a < Name b) x ps) ps xs = rev xs @ ps"
proof (induction xs arbitrary: ps)
  case Nil
  then show ?case by simp
next
  case (Cons x xs)
  have stay: "sink (\<lambda>a b. Name a < Name b) x ps = x # ps"
  proof (cases ps)
    case Nil
    then show ?thesis by simp
  next
    case (Cons p ps')
    with Cons.prems have "\<not> Name x < Name p"
      by (simp add: sorted_append not_less)
    with Cons show ?thesis by simp
  qed
  from Cons.prems have "sorted (map Name (rev (x # ps) @ xs))"
    by simp
  then show ?case
    using Cons.IH[of "x # ps"] by (simp add: stay)
qed

lemma SliceStable_sorted:
  "sorted (map Name xs) \<Longrightarrow> SliceStable (\<lambda>a b. Name a < Name b) xs = xs"
  by (simp add: SliceStable_def foldl_sink_sorted)

subsection \<open>Sort\<close>

lemma length_two: "length f = 2 \<Longrightarrow> \<exists>a b. f = [a, b]"
  by (auto simp: numeral_2_eq_2 length_Suc_conv)

lemma mset_Sort: "mset (Sort f) = mset f"
  by (auto simp: Sort_def mset_SliceStable dest!: length_two)

lemma sorted_Sort: "sorted (map Name (Sort f))"
proof -
  consider "length f < 2" | "length f = 2" | "2 < length f"
    by linarith
  then show ?thesis
  proof cases
    case 1
    then have "f = [] \<or> (\<exists>a. f = [a])"
      by (cases f) auto
    then show ?thesis
      by (auto simp: Sort_def)
  next
    case 2
    then show ?thesis
      by (auto simp: Sort_def dest!: length_two)
  next
    case 3
    then show ?thesis
      by (simp add: Sort_def sorted_SliceStable)
  qed
qed

lemma filter_Sort: "filter (\<lambda>y. Name y = k) (Sort f) = filter (\<lambda>y. Name y = k) f"
  by (auto simp: Sort_def filter_SliceStable dest!: length_two)

lemma Sort_sorted: "sorted (map Name f) \<Longrightarrow> Sort f = f"
  by (auto simp: Sort_def SliceStable_sorted dest!: length_two)

text \<open>
  C5. After \<^verbatim>\<open>Sort\<close> the list is a permutation of the original fields (the same fields
  with the same multiplicities, so every \<open>Value\<close> stays with its \<open>Name\<close> and none is
  modified), and the names are in non-decreasing byte-wise lexicographic order.
\<close>

theorem Sort_sorted_permutation:
  "mset (Sort f) = mset f \<and> sorted (map Name (Sort f)) \<and>
   mset (map Value (Sort f)) = mset (map Value f)"
proof -
  have "mset (map Value (Sort f)) = image_mset Value (mset (Sort f))"
    by simp
  then show ?thesis
    by (simp only: mset_Sort sorted_Sort mset_map simp_thms)
qed

theorem Sort_sorted_permutation_witness:
  "Sort [\<lparr>Name = ''b'', Value = 2 :: int\<rparr>, \<lparr>Name = ''a'', Value = 1\<rparr>] =
     [\<lparr>Name = ''a'', Value = 1\<rparr>, \<lparr>Name = ''b'', Value = 2\<rparr>] \<and>
   mset (Sort [\<lparr>Name = ''b'', Value = 2 :: int\<rparr>, \<lparr>Name = ''a'', Value = 1\<rparr>]) =
     mset [\<lparr>Name = ''b'', Value = 2 :: int\<rparr>, \<lparr>Name = ''a'', Value = 1\<rparr>] \<and>
   sorted (map Name (Sort [\<lparr>Name = ''b'', Value = 2 :: int\<rparr>, \<lparr>Name = ''a'', Value = 1\<rparr>]))"
proof -
  have "Sort [\<lparr>Name = ''b'', Value = 2 :: int\<rparr>, \<lparr>Name = ''a'', Value = 1\<rparr>] =
     [\<lparr>Name = ''a'', Value = 1\<rparr>, \<lparr>Name = ''b'', Value = 2\<rparr>]"
    by (simp add: Sort_def)
  then show ?thesis
    using Sort_sorted_permutation [of "[\<lparr>Name = ''b'', Value = 2 :: int\<rparr>, \<lparr>Name = ''a'', Value = 1\<rparr>]"]
    by blast
qed

text \<open>
  C6. \<^verbatim>\<open>Sort\<close> is stable at every length: for every name \<open>k\<close>, the fields named \<open>k\<close>
  stand after \<^verbatim>\<open>Sort\<close> in the order they stood in before.
\<close>

theorem Sort_stable:
  "filter (\<lambda>y. Name y = k) (Sort f) = filter (\<lambda>y. Name y = k) f"
  by (rule filter_Sort)

theorem Sort_stable_witness:
  "Sort [\<lparr>Name = ''b'', Value = 2 :: int\<rparr>, \<lparr>Name = ''a'', Value = 1\<rparr>,
         \<lparr>Name = ''b'', Value = 1\<rparr>, \<lparr>Name = ''a'', Value = 0\<rparr>] =
     [\<lparr>Name = ''a'', Value = 1\<rparr>, \<lparr>Name = ''a'', Value = 0\<rparr>,
      \<lparr>Name = ''b'', Value = 2\<rparr>, \<lparr>Name = ''b'', Value = 1\<rparr>] \<and>
   filter (\<lambda>y. Name y = ''b'')
     (Sort [\<lparr>Name = ''b'', Value = 2 :: int\<rparr>, \<lparr>Name = ''a'', Value = 1\<rparr>,
            \<lparr>Name = ''b'', Value = 1\<rparr>, \<lparr>Name = ''a'', Value = 0\<rparr>]) =
     [\<lparr>Name = ''b'', Value = 2\<rparr>, \<lparr>Name = ''b'', Value = 1\<rparr>] \<and>
   Sort [\<lparr>Name = ''b'', Value = 2 :: int\<rparr>, \<lparr>Name = ''b'', Value = 1\<rparr>] =
     [\<lparr>Name = ''b'', Value = 2\<rparr>, \<lparr>Name = ''b'', Value = 1\<rparr>]"
proof -
  have a: "Sort [\<lparr>Name = ''b'', Value = 2 :: int\<rparr>, \<lparr>Name = ''a'', Value = 1\<rparr>,
         \<lparr>Name = ''b'', Value = 1\<rparr>, \<lparr>Name = ''a'', Value = 0\<rparr>] =
     [\<lparr>Name = ''a'', Value = 1\<rparr>, \<lparr>Name = ''a'', Value = 0\<rparr>,
      \<lparr>Name = ''b'', Value = 2\<rparr>, \<lparr>Name = ''b'', Value = 1\<rparr>]"
    by (simp add: Sort_def SliceStable_def)
  have b: "Sort [\<lparr>Name = ''b'', Value = 2 :: int\<rparr>, \<lparr>Name = ''b'', Value = 1\<rparr>] =
     [\<lparr>Name = ''b'', Value = 2\<rparr>, \<lparr>Name = ''b'', Value = 1\<rparr>]"
    by (simp add: Sort_def)
  have c: "filter (\<lambda>y. Name y = ''b'')
     (Sort [\<lparr>Name = ''b'', Value = 2 :: int\<rparr>, \<lparr>Name = ''a'', Value = 1\<rparr>,
            \<lparr>Name = ''b'', Value = 1\<rparr>, \<lparr>Name = ''a'', Value = 0\<rparr>]) =
     [\<lparr>Name = ''b'', Value = 2\<rparr>, \<lparr>Name = ''b'', Value = 1\<rparr>]"
    by (simp add: Sort_stable)
  from a b c show ?thesis
    by blast
qed

text \<open>
  C7. \<^verbatim>\<open>Sort\<close> is idempotent: sorting twice gives the list that sorting once gives, and
  a list whose names are already in non-decreasing order is left as it is.
\<close>

theorem Sort_idempotent:
  "Sort (Sort f) = Sort f \<and> (sorted (map Name f) \<longrightarrow> Sort f = f)"
  using Sort_sorted [of f] Sort_sorted [of "Sort f"] sorted_Sort [of f]
  by blast

theorem Sort_idempotent_witness:
  "sorted (map Name [\<lparr>Name = ''a'', Value = 1 :: int\<rparr>, \<lparr>Name = ''ab'', Value = 2\<rparr>,
      \<lparr>Name = ''b'', Value = 3\<rparr>]) \<and>
   Sort [\<lparr>Name = ''a'', Value = 1 :: int\<rparr>, \<lparr>Name = ''ab'', Value = 2\<rparr>, \<lparr>Name = ''b'', Value = 3\<rparr>] =
     [\<lparr>Name = ''a'', Value = 1\<rparr>, \<lparr>Name = ''ab'', Value = 2\<rparr>, \<lparr>Name = ''b'', Value = 3\<rparr>] \<and>
   Sort (Sort [\<lparr>Name = ''b'', Value = 3 :: int\<rparr>, \<lparr>Name = ''ab'', Value = 2\<rparr>,
      \<lparr>Name = ''a'', Value = 1\<rparr>]) =
     Sort [\<lparr>Name = ''b'', Value = 3\<rparr>, \<lparr>Name = ''ab'', Value = 2\<rparr>, \<lparr>Name = ''a'', Value = 1\<rparr>]"
proof -
  have s: "sorted (map Name [\<lparr>Name = ''a'', Value = 1 :: int\<rparr>, \<lparr>Name = ''ab'', Value = 2\<rparr>,
      \<lparr>Name = ''b'', Value = 3\<rparr>])"
    by simp
  show ?thesis
    using s
      Sort_idempotent [of "[\<lparr>Name = ''a'', Value = 1 :: int\<rparr>, \<lparr>Name = ''ab'', Value = 2\<rparr>,
        \<lparr>Name = ''b'', Value = 3\<rparr>]"]
      Sort_idempotent [of "[\<lparr>Name = ''b'', Value = 3 :: int\<rparr>, \<lparr>Name = ''ab'', Value = 2\<rparr>,
        \<lparr>Name = ''a'', Value = 1\<rparr>]"]
    by blast
qed

subsection \<open>FieldListFromJSON\<close>

lemma error_shape_ok: "error_shape (fs, None)"
  by (simp add: error_shape_def)

lemma error_shape_eof: "error_shape ([], Some ''unexpected EOF'')"
  by (simp add: error_shape_def)

lemma error_shape_wrap: "error_shape ([], Some (''parsing JSON: '' @ m))"
  by (simp add: error_shape_def)

lemma FromJSON_loop_error_shape:
  assumes "FromJSON_loop ext p fs = Some y"
  shows "error_shape y"
  using assms
proof (induction rule: FromJSON_loop.raw_induct[rotated 1, consumes 1])
  case (1 loop ext parser flds y)
  from 1(2) show ?case
    by (auto split: prod.splits sum.splits if_splits dest: 1(1)
        simp: error_shape_ok error_shape_eof error_shape_wrap simp del: append.simps)
qed

lemma FromJSON_loop_error:
  assumes "FromJSON_loop ext p fs = Some (res, Some msg)"
  shows "res = [] \<and> (msg = ''unexpected EOF'' \<or> (\<exists>m. msg = ''parsing JSON: '' @ m))"
proof -
  from assms have "error_shape (res, Some msg)"
    by (rule FromJSON_loop_error_shape)
  then have nil: "res = []" and "msg = ''unexpected EOF'' \<or> take 14 msg = ''parsing JSON: ''"
    by (simp_all add: error_shape_def)
  moreover have "msg = take 14 msg @ drop 14 msg"
    by simp
  ultimately show ?thesis
    by metis
qed

lemma step_key_err:
  "Parse ext p = (Inl e, p1) \<Longrightarrow> e \<noteq> EOF \<Longrightarrow>
     FromJSON_loop ext p fs = Some ([], Some (''parsing JSON: '' @ Error e))"
  by (subst FromJSON_loop.simps) simp

lemma step_value_EOF:
  "Parse ext p = (Inr rawKey, p1) \<Longrightarrow> Parse ext p1 = (Inl EOF, p2) \<Longrightarrow>
     FromJSON_loop ext p fs = Some ([], Some ''unexpected EOF'')"
  by (subst FromJSON_loop.simps) simp

lemma step_value_err:
  "Parse ext p = (Inr rawKey, p1) \<Longrightarrow> Parse ext p1 = (Inl e, p2) \<Longrightarrow> e \<noteq> EOF \<Longrightarrow>
     FromJSON_loop ext p fs = Some ([], Some (''parsing JSON: '' @ Error e))"
  by (subst FromJSON_loop.simps) simp

lemma step_key_unmarshal:
  "Parse ext p = (Inr rawKey, p1) \<Longrightarrow> Parse ext p1 = (Inr rawValue, p2) \<Longrightarrow>
   UnmarshalString ext rawKey = Inl e \<Longrightarrow>
     FromJSON_loop ext p fs = Some ([], Some (''parsing JSON: '' @ Error e))"
  by (subst FromJSON_loop.simps) simp

lemma step_value_unmarshal:
  "Parse ext p = (Inr rawKey, p1) \<Longrightarrow> Parse ext p1 = (Inr rawValue, p2) \<Longrightarrow>
   UnmarshalString ext rawKey = Inr k \<Longrightarrow> UnmarshalInterface ext rawValue = Inl e \<Longrightarrow>
     FromJSON_loop ext p fs = Some ([], Some (''parsing JSON: '' @ Error e))"
  by (subst FromJSON_loop.simps) simp

text \<open>
  C8. \<^verbatim>\<open>FieldListFromJSON\<close> fails as the error taxonomy says. At every pass of the loop
  (from any parser state \<open>p\<close>, with any fields \<open>fs\<close> read so far): end of input in place of
  the value of a key that was read gives the error \<^verbatim>\<open>unexpected EOF\<close>; a failure of the
  key token other than end of input, of the value token, of the key's decoding or of the
  value's decoding gives an error whose message is \<^verbatim>\<open>parsing JSON: \<close> followed by the
  cause. And whenever \<^verbatim>\<open>FieldListFromJSON\<close> returns an error, the list it returns is
  \<^verbatim>\<open>nil\<close> and the message has one of these two forms.
\<close>

theorem FromJSON_error_taxonomy:
  "(Parse ext p = (Inr rawKey, p1) \<and> Parse ext p1 = (Inl EOF, p2) \<longrightarrow>
      FromJSON_loop ext p fs = Some ([], Some ''unexpected EOF'')) \<and>
   (Parse ext p = (Inl e, p1) \<and> e \<noteq> EOF \<longrightarrow>
      FromJSON_loop ext p fs = Some ([], Some (''parsing JSON: '' @ Error e))) \<and>
   (Parse ext p = (Inr rawKey, p1) \<and> Parse ext p1 = (Inl e, p2) \<and> e \<noteq> EOF \<longrightarrow>
      FromJSON_loop ext p fs = Some ([], Some (''parsing JSON: '' @ Error e))) \<and>
   (Parse ext p = (Inr rawKey, p1) \<and> Parse ext p1 = (Inr rawValue, p2) \<and>
    UnmarshalString ext rawKey = Inl e \<longrightarrow>
      FromJSON_loop ext p fs = Some ([], Some (''parsing JSON: '' @ Error e))) \<and>
   (Parse ext p = (Inr rawKey, p1) \<and> Parse ext p1 = (Inr rawValue, p2) \<and>
    UnmarshalString ext rawKey = Inr k \<and> UnmarshalInterface ext rawValue = Inl e \<longrightarrow>
      FromJSON_loop ext p fs = Some ([], Some (''parsing JSON: '' @ Error e))) \<and>
   (FieldListFromJSON ext input = Some (res, Some msg) \<longrightarrow>
      res = [] \<and> (msg = ''unexpected EOF'' \<or> (\<exists>m. msg = ''parsing JSON: '' @ m)))"
proof (intro conjI impI)
  assume "FieldListFromJSON ext input = Some (res, Some msg)"
  then have r: "FromJSON_loop ext (NewFastObjParser ext input) [] = Some (res, Some msg)"
    by (simp add: FieldListFromJSON_def)
  from FromJSON_loop_error [OF r] show "res = []"
    by blast
  from FromJSON_loop_error [OF r]
  show "msg = ''unexpected EOF'' \<or> (\<exists>m. msg = ''parsing JSON: '' @ m)"
    by blast
qed (blast intro: step_value_EOF step_key_err step_value_err step_key_unmarshal
      step_value_unmarshal)+

theorem FromJSON_error_taxonomy_witness:
  "FieldListFromJSON toy_ext ''{a}'' = Some ([], Some ''unexpected EOF'') \<and>
   FieldListFromJSON toy_ext ''{!:1}'' = Some ([], Some ''parsing JSON: bad token'') \<and>
   FieldListFromJSON toy_ext ''{a:!}'' = Some ([], Some ''parsing JSON: bad token'') \<and>
   FieldListFromJSON toy_ext ''{?:1}'' = Some ([], Some ''parsing JSON: bad string'') \<and>
   FieldListFromJSON toy_ext ''{a:?}'' = Some ([], Some ''parsing JSON: bad value'') \<and>
   FieldListFromJSON toy_ext ''{b:2,a}'' = Some ([], Some ''unexpected EOF'')"
proof -
  have 1: "FieldListFromJSON toy_ext ''{a}'' = Some ([], Some ''unexpected EOF'')"
    unfolding FieldListFromJSON_def
    using FromJSON_error_taxonomy [where ext = toy_ext and p = "[Inr ''a'']" and fs = "[]"
        and rawKey = "''a''" and ?p1.0 = "[]" and ?p2.0 = "[]"]
    by (simp add: toy_ext_def)
  have 2: "FieldListFromJSON toy_ext ''{!:1}'' = Some ([], Some ''parsing JSON: bad token'')"
    unfolding FieldListFromJSON_def
    using FromJSON_error_taxonomy [where ext = toy_ext
        and p = "[Inl (Err ''bad token''), Inr ''1'']" and fs = "[]"
        and e = "Err ''bad token''" and ?p1.0 = "[Inr ''1'']"]
    by (simp add: toy_ext_def)
  have 3: "FieldListFromJSON toy_ext ''{a:!}'' = Some ([], Some ''parsing JSON: bad token'')"
    unfolding FieldListFromJSON_def
    using FromJSON_error_taxonomy [where ext = toy_ext
        and p = "[Inr ''a'', Inl (Err ''bad token'')]" and fs = "[]" and rawKey = "''a''"
        and e = "Err ''bad token''" and ?p1.0 = "[Inl (Err ''bad token'')]" and ?p2.0 = "[]"]
    by (simp add: toy_ext_def)
  have 4: "FieldListFromJSON toy_ext ''{?:1}'' = Some ([], Some ''parsing JSON: bad string'')"
    unfolding FieldListFromJSON_def
    using FromJSON_error_taxonomy [where ext = toy_ext
        and p = "[Inr ''?'', Inr ''1'']" and fs = "[]" and rawKey = "''?''" and rawValue = "''1''"
        and e = "Err ''bad string''" and ?p1.0 = "[Inr ''1'']" and ?p2.0 = "[]"]
    by (simp add: toy_ext_def)
  have 5: "FieldListFromJSON toy_ext ''{a:?}'' = Some ([], Some ''parsing JSON: bad value'')"
    unfolding FieldListFromJSON_def
    using FromJSON_error_taxonomy [where ext = toy_ext
        and p = "[Inr ''a'', Inr ''?'']" and fs = "[]" and rawKey = "''a''" and rawValue = "''?''"
        and k = "''a''" and e = "Err ''bad value''" and ?p1.0 = "[Inr ''?'']" and ?p2.0 = "[]"]
    by (simp add: toy_ext_def)
  have 6: "FieldListFromJSON toy_ext ''{b:2,a}'' = Some ([], Some ''unexpected EOF'')"
    unfolding FieldListFromJSON_def
    by (subst FromJSON_loop.simps, simp add: toy_ext_def)+
  from 1 2 3 4 5 6 show ?thesis
    by blast
qed

text \<open>
  C9. When the parser reports end of input on the first key read (an empty object),
  \<^verbatim>\<open>FieldListFromJSON\<close> returns the empty list and no error.
\<close>

theorem FromJSON_empty:
  assumes "fst (Parse ext (NewFastObjParser ext input)) = Inl EOF"
  shows "FieldListFromJSON ext input = Some ([], None)"
  using assms unfolding FieldListFromJSON_def
  by (subst FromJSON_loop.simps) (auto split: prod.splits)

theorem FromJSON_empty_witness:
  "fst (Parse toy_ext (NewFastObjParser toy_ext ''{}'')) = Inl EOF \<and>
   FieldListFromJSON toy_ext ''{}'' = Some ([], None)"
proof -
  have h: "fst (Parse toy_ext (NewFastObjParser toy_ext ''{}'')) = Inl EOF"
    by (simp add: toy_ext_def)
  from h FromJSON_empty [OF h] show ?thesis
    by blast
qed

end
